theory Spec2Isabelle
  imports Complex_Main "HOL-Library.Char_ord" "HOL-Library.List_Lexorder"
begin

section \<open>Python values shared by the three scripts\<close>

text \<open>
  The scripts exchange JSON with remote services.  A parsed JSON document is a value of
  \<open>json\<close>; an object keeps its members in insertion order, as a Python \<open>dict\<close> does.
  Integer and non-integer numbers are kept apart, as Python's \<open>json\<close> module does
  (\<open>int\<close> and \<open>float\<close>); a float is represented by the rational it denotes, and the
  non-standard tokens \<open>NaN\<close> and \<open>Infinity\<close> are not represented.
  Strings are lists of bytes; the case conversions below act on ASCII letters only.
\<close>

datatype json =
    JNull
  | JBool bool
  | JInt int
  | JFloat rat
  | JStr string
  | JArr "json list"
  | JObj "(string \<times> json) list"

text \<open>The exceptions the scripts raise or let through.\<close>

datatype exn =
    Timeout
  | ConnectionError
  | HTTPError nat
  | JSONDecodeError
  | ArcGISError json
  | RequestFailed int "exn option"
  | AttributeError
  | TypeError
  | ValueError
  | KeyError
  | IndexError
  | RuntimeError string

text \<open>Python truthiness, as used by \<open>x or default\<close> and \<open>if not x\<close>.\<close>

fun truthy :: "json \<Rightarrow> bool" where
  "truthy JNull = False"
| "truthy (JBool b) = b"
| "truthy (JInt n) = (n \<noteq> 0)"
| "truthy (JFloat r) = (r \<noteq> 0)"
| "truthy (JStr s) = (s \<noteq> [])"
| "truthy (JArr xs) = (xs \<noteq> [])"
| "truthy (JObj kvs) = (kvs \<noteq> [])"

text \<open>\<open>d[k] = v\<close> on a dict: an existing key keeps its position, a new key goes last.\<close>

fun dict_set :: "('k \<times> 'v) list \<Rightarrow> 'k \<Rightarrow> 'v \<Rightarrow> ('k \<times> 'v) list" where
  "dict_set [] k v = [(k, v)]"
| "dict_set ((k', v') # kvs) k v =
     (if k' = k then (k, v) # kvs else (k', v') # dict_set kvs k v)"

subsection \<open>Characters and strings\<close>

definition is_upper :: "char \<Rightarrow> bool" where
  "is_upper c = (let n = (of_char c :: nat) in 65 \<le> n \<and> n \<le> 90)"

definition is_lower :: "char \<Rightarrow> bool" where
  "is_lower c = (let n = (of_char c :: nat) in 97 \<le> n \<and> n \<le> 122)"

definition is_digit :: "char \<Rightarrow> bool" where
  "is_digit c = (let n = (of_char c :: nat) in 48 \<le> n \<and> n \<le> 57)"

definition lower_char :: "char \<Rightarrow> char" where
  "lower_char c = (if is_upper c then char_of ((of_char c :: nat) + 32) else c)"

definition upper_char :: "char \<Rightarrow> char" where
  "upper_char c = (if is_lower c then char_of ((of_char c :: nat) - 32) else c)"

definition lower :: "string \<Rightarrow> string" where
  "lower s = map lower_char s"

definition upper :: "string \<Rightarrow> string" where
  "upper s = map upper_char s"

text \<open>Python's \<open>str.isspace\<close> on ASCII: tab to carriage return, the four separators, space.\<close>

definition is_space :: "char \<Rightarrow> bool" where
  "is_space c = (let n = (of_char c :: nat) in (9 \<le> n \<and> n \<le> 13) \<or> (28 \<le> n \<and> n \<le> 32))"

definition lstrip :: "string \<Rightarrow> string" where
  "lstrip s = dropWhile is_space s"

definition rstrip :: "string \<Rightarrow> string" where
  "rstrip s = rev (dropWhile is_space (rev s))"

definition strip :: "string \<Rightarrow> string" where
  "strip s = lstrip (rstrip s)"

fun startswith :: "string \<Rightarrow> string \<Rightarrow> bool" where
  "startswith s [] = True"
| "startswith [] (p # ps) = False"
| "startswith (c # cs) (p # ps) = (c = p \<and> startswith cs ps)"

text \<open>\<open>needle in haystack\<close> on strings.\<close>

fun contains :: "string \<Rightarrow> string \<Rightarrow> bool" where
  "contains [] needle = (needle = [])"
| "contains (c # cs) needle = (startswith (c # cs) needle \<or> contains cs needle)"

text \<open>\<open>str(n)\<close> for an integer: decimal digits, a minus sign for negatives.\<close>

definition digit_char :: "nat \<Rightarrow> char" where
  "digit_char d = char_of (48 + d)"

fun str_nat :: "nat \<Rightarrow> string" where
  "str_nat n = (if n < 10 then [digit_char n] else str_nat (n div 10) @ [digit_char (n mod 10)])"

declare str_nat.simps [simp del]

definition str_int :: "int \<Rightarrow> string" where
  "str_int i = (if i < 0 then CHR ''-'' # str_nat (nat (- i)) else str_nat (nat i))"

text \<open>
  \<open>int(s)\<close> for a string: surrounding whitespace is ignored, one sign is allowed, and the
  rest must be decimal digits, where single underscores may separate digit groups.
\<close>

fun digits_ok :: "bool \<Rightarrow> string \<Rightarrow> bool" where
  "digits_ok prev_digit [] = prev_digit"
| "digits_ok prev_digit (c # cs) =
     (if is_digit c then digits_ok True cs
      else if c = CHR ''_'' \<and> prev_digit then (cs \<noteq> [] \<and> is_digit (hd cs) \<and> digits_ok False cs)
      else False)"

definition digits_value :: "string \<Rightarrow> nat" where
  "digits_value s = foldl (\<lambda>acc c. 10 * acc + ((of_char c :: nat) - 48)) 0 (filter is_digit s)"

definition int_of_str :: "string \<Rightarrow> exn + int" where
  "int_of_str s =
     (let t = strip s;
          neg = startswith t ''-'';
          body = (if startswith t ''-'' \<or> startswith t ''+'' then tl t else t)
      in if digits_ok False body
         then Inr (if neg then - int (digits_value body) else int (digits_value body))
         else Inl ValueError)"

text \<open>\<open>int(x)\<close> for a JSON value: floats truncate towards zero, booleans are 0 and 1.\<close>

fun py_int :: "json \<Rightarrow> exn + int" where
  "py_int (JInt n) = Inr n"
| "py_int (JBool b) = Inr (if b then 1 else 0)"
| "py_int (JFloat r) = Inr (if r < 0 then \<lceil>r\<rceil> else \<lfloor>r\<rfloor>)"
| "py_int (JStr s) = int_of_str s"
| "py_int JNull = Inl TypeError"
| "py_int (JArr xs) = Inl TypeError"
| "py_int (JObj kvs) = Inl TypeError"

section \<open>crash.py: the retrying request executor\<close>

text \<open>
  The remote service is a function from the number of HTTP requests already made, the
  URL and the query parameters to what \<open>session.get\<close> does next: it raises (timeout,
  connection failure), or it delivers a status code and a body, which is JSON
  (\<open>Some\<close>) or not (\<open>None\<close>).
  The world records every \<open>session.get\<close> with the loop variable \<open>attempt\<close> it was
  made under, and every \<open>time.sleep\<close> with its duration in seconds.
\<close>

type_synonym params = "(string \<times> string) list"

datatype reply =
    GetRaises exn
  | Reply nat "json option"

type_synonym server = "nat \<Rightarrow> string \<Rightarrow> params \<Rightarrow> reply"

record world =
  reqs :: "(string \<times> params \<times> nat) list"
  slept :: "nat list"

definition ARCGIS_QUERY_URL :: string where
  "ARCGIS_QUERY_URL =
     ''https://services1.arcgis.com/4yjifSiIG17X0gW4/ArcGIS/rest/services/NTAD_FARS_2022/FeatureServer/0/query''"

definition MAX_RECORD_COUNT :: int where
  "MAX_RECORD_COUNT = 2000"

text \<open>
  The body of the \<open>try\<close> block for one reply: \<open>raise_for_status\<close> raises on a 4xx or
  5xx status, \<open>r.json()\<close> raises on a body that is not JSON, and a dict with an
  \<open>error\<close> member raises the ArcGIS error.
\<close>

fun attempt_once :: "reply \<Rightarrow> exn + json" where
  "attempt_once (GetRaises e) = Inl e"
| "attempt_once (Reply status body) =
     (if 400 \<le> status \<and> status < 600 then Inl (HTTPError status)
      else case body of
          None \<Rightarrow> Inl JSONDecodeError
        | Some data \<Rightarrow>
            (case data of
               JObj kvs \<Rightarrow>
                 (case map_of kvs ''error'' of
                    Some payload \<Rightarrow> Inl (ArcGISError payload)
                  | None \<Rightarrow> Inr data)
             | _ \<Rightarrow> Inr data))"

text \<open>
  The \<open>for attempt in range(retries)\<close> loop; the list holds the attempts still to be
  made, \<open>last_err\<close> the exception of the latest failed one.  Every exception of the
  \<open>try\<close> block lands in the one \<open>except Exception\<close> clause, which sleeps
  \<open>min(2 ** attempt, 20)\<close> seconds and goes on.
\<close>

fun retry_loop ::
  "server \<Rightarrow> string \<Rightarrow> params \<Rightarrow> nat list \<Rightarrow> exn option \<Rightarrow> world \<Rightarrow> (exn option + json) \<times> world"
where
  "retry_loop srv url ps [] last_err w = (Inl last_err, w)"
| "retry_loop srv url ps (attempt # rest) last_err w =
     (let r = srv (length (reqs w)) url ps;
          w1 = w\<lparr>reqs := reqs w @ [(url, ps, attempt)]\<rparr>
      in case attempt_once r of
           Inr data \<Rightarrow> (Inr data, w1)
         | Inl e \<Rightarrow>
             retry_loop srv url ps rest (Some e)
               (w1\<lparr>slept := slept w1 @ [min (2 ^ attempt) 20]\<rparr>))"

definition request_json ::
  "server \<Rightarrow> string \<Rightarrow> params \<Rightarrow> int \<Rightarrow> world \<Rightarrow> (exn + json) \<times> world"
where
  "request_json srv url ps retries w =
     (case retry_loop srv url ps [0..<nat retries] None w of
        (Inr data, w') \<Rightarrow> (Inr data, w')
      | (Inl last_err, w') \<Rightarrow> (Inl (RequestFailed retries last_err), w'))"

section \<open>crash.py: count, pagination, normalisation\<close>

definition count_params :: "string \<Rightarrow> params" where
  "count_params wh = [(''f'', ''json''), (''where'', wh), (''returnCountOnly'', ''true'')]"

text \<open>
  \<open>get_count\<close>: one request with the default five attempts, then
  \<open>int(data.get("count", 0))\<close>.  Only a dict has \<open>get\<close>.  An object of \<open>json\<close>
  stands for a Python dict, whose keys are distinct, so \<open>map_of\<close> is its lookup.
\<close>

definition get_count :: "server \<Rightarrow> string \<Rightarrow> world \<Rightarrow> (exn + int) \<times> world" where
  "get_count srv wh w =
     (case request_json srv ARCGIS_QUERY_URL (count_params wh) 5 w of
        (Inl e, w') \<Rightarrow> (Inl e, w')
      | (Inr data, w') \<Rightarrow>
          (case data of
             JObj kvs \<Rightarrow>
               (case map_of kvs ''count'' of
                  None \<Rightarrow> (Inr 0, w')
                | Some v \<Rightarrow> (py_int v, w'))
           | _ \<Rightarrow> (Inl AttributeError, w')))"

definition page_params :: "string \<Rightarrow> string \<Rightarrow> int \<Rightarrow> params" where
  "page_params wh out_fields offset =
     [(''f'', ''json''),
      (''where'', wh),
      (''outFields'', out_fields),
      (''returnGeometry'', ''true''),
      (''outSR'', ''4326''),
      (''resultRecordCount'', str_int MAX_RECORD_COUNT),
      (''resultOffset'', str_int offset),
      (''orderByFields'', ''OBJECTID'')]"

text \<open>
  What \<open>list.extend\<close> appends for a JSON value: the elements of a list, the characters
  of a string, the keys of a dict; anything else is not iterable.
\<close>

fun py_iter :: "json \<Rightarrow> exn + json list" where
  "py_iter (JArr xs) = Inr xs"
| "py_iter (JStr s) = Inr (map (\<lambda>c. JStr [c]) s)"
| "py_iter (JObj kvs) = Inr (map (\<lambda>kv. JStr (fst kv)) kvs)"
| "py_iter JNull = Inl TypeError"
| "py_iter (JBool b) = Inl TypeError"
| "py_iter (JInt n) = Inl TypeError"
| "py_iter (JFloat r) = Inl TypeError"

text \<open>
  The \<open>for page_idx in range(pages)\<close> loop.  The progress line it prints has no effect
  on the result and is left out.
\<close>

fun page_loop ::
  "server \<Rightarrow> string \<Rightarrow> string \<Rightarrow> nat list \<Rightarrow> json list \<Rightarrow> world \<Rightarrow> (exn + json list) \<times> world"
where
  "page_loop srv wh out_fields [] features w = (Inr features, w)"
| "page_loop srv wh out_fields (page_idx # rest) features w =
     (let offset = int page_idx * MAX_RECORD_COUNT
      in case request_json srv ARCGIS_QUERY_URL (page_params wh out_fields offset) 5 w of
           (Inl e, w') \<Rightarrow> (Inl e, w')
         | (Inr data, w') \<Rightarrow>
             (case data of
                JObj kvs \<Rightarrow>
                  (case py_iter (case map_of kvs ''features'' of None \<Rightarrow> JArr [] | Some v \<Rightarrow> v) of
                     Inl e \<Rightarrow> (Inl e, w')
                   | Inr page_features \<Rightarrow>
                       page_loop srv wh out_fields rest (features @ page_features) w')
              | _ \<Rightarrow> (Inl AttributeError, w')))"

text \<open>
  \<open>math.ceil(total / MAX_RECORD_COUNT)\<close> is computed here on integers.  Python divides
  as floats; the correctly rounded quotient has the same ceiling for every total below
  \<open>2 ^ 53\<close>: a quotient that is not an integer is at least \<open>1 / 2000\<close> away from the
  next integer, and the rounding error there is at most \<open>2 ^ - 11\<close>, which is less.
\<close>

definition page_count :: "int \<Rightarrow> int" where
  "page_count tot = - ((- tot) div MAX_RECORD_COUNT)"

definition fetch_all_features ::
  "server \<Rightarrow> string \<Rightarrow> string \<Rightarrow> world \<Rightarrow> (exn + json list) \<times> world"
where
  "fetch_all_features srv wh out_fields w =
     (case get_count srv wh w of
        (Inl e, w') \<Rightarrow> (Inl e, w')
      | (Inr tot, w') \<Rightarrow>
          if tot = 0 then (Inr [], w')
          else page_loop srv wh out_fields [0..<nat (page_count tot)] [] w')"

text \<open>
  The requests as the callers of the executor see them: one per call of
  \<open>_request_json\<close>, which is the HTTP request made under \<open>attempt = 0\<close>.
\<close>

definition logical_requests :: "world \<Rightarrow> (string \<times> params) list" where
  "logical_requests w =
     map (\<lambda>(url, ps, attempt). (url, ps)) (filter (\<lambda>(url, ps, attempt). attempt = 0) (reqs w))"

subsection \<open>Kinds of replies, and services used as examples\<close>

text \<open>
  A transport failure, as the executor meets it: \<open>session.get\<close> raises, the status is
  one \<open>raise_for_status\<close> rejects, or the body is not JSON.
\<close>

fun transport_failure :: "reply \<Rightarrow> bool" where
  "transport_failure (GetRaises e) = True"
| "transport_failure (Reply status body) = ((400 \<le> status \<and> status < 600) \<or> body = None)"

text \<open>The error payload of a well-formed reply that carries one.\<close>

fun error_payload :: "reply \<Rightarrow> json option" where
  "error_payload (GetRaises e) = None"
| "error_payload (Reply status None) = None"
| "error_payload (Reply status (Some data)) =
     (if 400 \<le> status \<and> status < 600 then None
      else case data of JObj kvs \<Rightarrow> map_of kvs ''error'' | _ \<Rightarrow> None)"

definition w0 :: world where
  "w0 = \<lparr>reqs = [], slept = []\<rparr>"

definition invalid_query :: json where
  "invalid_query = JObj [(''code'', JInt 400), (''message'', JStr ''Invalid query'')]"

text \<open>A service that answers every request with status 200 and an error payload.\<close>

definition rejecting :: server where
  "rejecting n url ps = Reply 200 (Some (JObj [(''error'', invalid_query)]))"

text \<open>A service that times out twice and then reports a count of seven.\<close>

definition flaky :: server where
  "flaky n url ps = (if n < 2 then GetRaises Timeout else Reply 200 (Some (JObj [(''count'', JInt 7)])))"

text \<open>A service that answers every request with status 503 and no JSON.\<close>

definition down :: server where
  "down n url ps = Reply 503 None"

text \<open>A service that reports no matching record.\<close>

definition empty_match :: server where
  "empty_match n url ps = Reply 200 (Some (JObj [(''count'', JInt 0)]))"

text \<open>A service whose answer to the count query has no \<open>count\<close> member.\<close>

definition no_count :: server where
  "no_count n url ps = Reply 200 (Some (JObj [(''objectIdFieldName'', JStr ''OBJECTID'')]))"

text \<open>A service that reports 4500 records and then delivers pages of one feature each.\<close>

definition paging :: server where
  "paging n url ps =
     (if n = 0 then Reply 200 (Some (JObj [(''count'', JInt 4500)]))
      else Reply 200 (Some (JObj [(''features'', JArr [JObj [(''attributes'', JObj [])]])])))"

section \<open>Data frames\<close>

text \<open>
  A pandas data frame, as far as the scripts look at it: the column names in order and
  the rows, each with one cell per column.  A cell holds a value, is missing (\<open>NaN\<close>),
  holds a calendar date, or is the missing date (\<open>NaT\<close>).
\<close>

datatype cell =
    Val json
  | NaN
  | Date int int int
  | NaT

record frame =
  columns :: "string list"
  rows :: "cell list list"

text \<open>\<open>df.empty\<close>: some axis has length zero.\<close>

definition empty_frame :: "frame \<Rightarrow> bool" where
  "empty_frame df = (columns df = [] \<or> rows df = [])"

section \<open>wildfire\_report.py: fetching detections\<close>

definition FIRMS_AREA_API :: string where
  "FIRMS_AREA_API = ''https://firms.modaps.eosdis.nasa.gov/api/area/csv''"

text \<open>An optional string is falsy when it is \<open>None\<close> or empty.\<close>

definition build_url :: "string \<Rightarrow> string \<Rightarrow> string \<Rightarrow> int \<Rightarrow> string option \<Rightarrow> string" where
  "build_url mapkey source area days date =
     (let base = FIRMS_AREA_API @ ''/'' @ mapkey @ ''/'' @ source @ ''/'' @ area @ ''/'' @ str_int days
      in case date of
           None \<Rightarrow> base
         | Some d \<Rightarrow> if d = [] then base else base @ ''/'' @ d)"

text \<open>
  What \<open>requests.get\<close> does for a URL: it raises, or it delivers a status and a text.
  The state of \<open>fetch_fires\<close> is the list of URLs requested so far.
  \<open>pandas.read_csv\<close> is a parameter: it raises or yields a frame.
  The two longer error messages are cut to their first sentence.
\<close>

datatype text_reply =
    GetFails exn
  | TextReply nat string

type_synonym web = "string \<Rightarrow> text_reply"

definition fetch_fires ::
  "web \<Rightarrow> (string \<Rightarrow> exn + frame) \<Rightarrow> string \<Rightarrow> string \<Rightarrow> string option \<Rightarrow> int \<Rightarrow> string option
     \<Rightarrow> string list \<Rightarrow> (exn + frame) \<times> string list"
where
  "fetch_fires web read_csv mapkey source bbox days date urls =
     (if days < 1 \<or> days > 10 then (Inl ValueError, urls)
      else
        let area = (case bbox of None \<Rightarrow> ''world'' | Some b \<Rightarrow> if b = [] then ''world'' else b);
            url = build_url mapkey source area days date;
            urls1 = urls @ [url]
        in case web url of
             GetFails e \<Rightarrow> (Inl e, urls1)
           | TextReply status text \<Rightarrow>
               if 400 \<le> status \<and> status < 600 then (Inl (HTTPError status), urls1)
               else if startswith (lstrip text) ''<'' \<or> startswith (strip text) ''{''
               then (Inl (RuntimeError ''FIRMS returned a non-CSV response.''), urls1)
               else
                 (case read_csv text of
                    Inl e \<Rightarrow> (Inl (RuntimeError ''CSV parse error''), urls1)
                  | Inr df \<Rightarrow>
                      if empty_frame df
                      then (Inl (RuntimeError
                              ''No detections returned. Try increasing --days or changing --source/--bbox.''),
                            urls1)
                      else (Inr df, urls1)))"

subsection \<open>A reader and a service used as examples\<close>

fun split_on :: "char \<Rightarrow> string \<Rightarrow> string list" where
  "split_on sep [] = [[]]"
| "split_on sep (c # cs) =
     (if c = sep then [] # split_on sep cs
      else case split_on sep cs of
             [] \<Rightarrow> [[c]]
           | fld # flds \<Rightarrow> (c # fld) # flds)"

text \<open>
  A reader for plain comma-separated text: the first line names the columns, an input
  without any line is an error.
\<close>

definition plain_csv :: "string \<Rightarrow> exn + frame" where
  "plain_csv text =
     (case filter (\<lambda>l. l \<noteq> []) (split_on (CHR 0x0A) text) of
        [] \<Rightarrow> Inl ValueError
      | header # body \<Rightarrow>
          Inr \<lparr>columns = split_on (CHR '','') header,
               rows = map (\<lambda>l. map (\<lambda>f. Val (JStr f)) (split_on (CHR '','') l)) body\<rparr>)"

definition header_line :: string where
  "header_line = ''latitude,longitude,frp'' @ [CHR 0x0A]"

text \<open>A service that answers with the header line of a detections table and no row.\<close>

definition quiet_day :: web where
  "quiet_day url = TextReply 200 header_line"

text \<open>A service that answers with one detection.\<close>

definition one_fire :: web where
  "one_fire url =
     TextReply 200 (header_line @ ''34.5,-112.1,7.2'' @ [CHR 0x0A])"

section \<open>electric.py: choosing a data column and a facet value\<close>

text \<open>
  \<open>normalize_key\<close> is \<open>re.sub(r"[^a-z0-9]+", "", s.lower())\<close>.  The substitution scans
  from the left and deletes each maximal run of characters outside the class.
\<close>

definition in_az09 :: "char \<Rightarrow> bool" where
  "in_az09 c = (is_lower c \<or> is_digit c)"

function re_sub_strip :: "string \<Rightarrow> string" where
  "re_sub_strip [] = []"
| "re_sub_strip (c # cs) =
     (if in_az09 c then c # re_sub_strip cs
      else re_sub_strip (dropWhile (\<lambda>x. \<not> in_az09 x) cs))"
  by pat_completeness auto
termination
  by (relation "measure length") (auto simp: length_dropWhile_le le_imp_less_Suc)

definition normalize_key :: "string \<Rightarrow> string" where
  "normalize_key s = re_sub_strip (lower s)"

text \<open>
  \<open>requests.get\<close> as \<open>electric.py\<close> uses it: no session, no retry.  The message of the
  runtime error is cut after the status code.
\<close>

type_synonym eia_service = "string \<Rightarrow> params \<Rightarrow> reply"

definition EIA_BASE :: string where
  "EIA_BASE = ''https://api.eia.gov/v2''"

definition http_get_json :: "eia_service \<Rightarrow> string \<Rightarrow> params \<Rightarrow> exn + json" where
  "http_get_json service url ps =
     (case service url ps of
        GetRaises e \<Rightarrow> Inl e
      | Reply status body \<Rightarrow>
          if 400 \<le> status \<and> status < 600 then Inl (RuntimeError (''HTTP '' @ str_nat status))
          else case body of None \<Rightarrow> Inl JSONDecodeError | Some data \<Rightarrow> Inr data)"

definition eia_metadata :: "eia_service \<Rightarrow> string \<Rightarrow> string \<Rightarrow> exn + json" where
  "eia_metadata service route api_key =
     http_get_json service (EIA_BASE @ ''/'' @ route @ ''/'') [(''api_key'', api_key)]"

text \<open>\<open>x.get(key, default)\<close>: only a dict has it.\<close>

fun py_get :: "json \<Rightarrow> string \<Rightarrow> json \<Rightarrow> exn + json" where
  "py_get (JObj kvs) k dflt = Inr (case map_of kvs k of None \<Rightarrow> dflt | Some v \<Rightarrow> v)"
| "py_get JNull k dflt = Inl AttributeError"
| "py_get (JBool b) k dflt = Inl AttributeError"
| "py_get (JInt n) k dflt = Inl AttributeError"
| "py_get (JFloat r) k dflt = Inl AttributeError"
| "py_get (JStr s) k dflt = Inl AttributeError"
| "py_get (JArr xs) k dflt = Inl AttributeError"

definition preferred :: "string list" where
  "preferred =
     [''net-generation'', ''net_generation'', ''netgeneration'', ''generation'', ''gen'', ''value'']"

text \<open>The inner loop \<open>for k, nk in norm_map.items(): if ...: return k\<close>.\<close>

fun first_key :: "(string \<Rightarrow> bool) \<Rightarrow> (string \<times> string) list \<Rightarrow> string option" where
  "first_key P [] = None"
| "first_key P ((k, nk) # rest) = (if P nk then Some k else first_key P rest)"

text \<open>The two outer loops \<open>for pn in pref_norm\<close>: exact matches, then substring matches.\<close>

fun exact_pass :: "string list \<Rightarrow> (string \<times> string) list \<Rightarrow> string option" where
  "exact_pass [] norm_map = None"
| "exact_pass (pn # pns) norm_map =
     (case first_key (\<lambda>nk. nk = pn) norm_map of
        Some k \<Rightarrow> Some k
      | None \<Rightarrow> exact_pass pns norm_map)"

fun substring_pass :: "string list \<Rightarrow> (string \<times> string) list \<Rightarrow> string option" where
  "substring_pass [] norm_map = None"
| "substring_pass (pn # pns) norm_map =
     (case first_key (\<lambda>nk. pn \<noteq> [] \<and> contains nk pn) norm_map of
        Some k \<Rightarrow> Some k
      | None \<Rightarrow> substring_pass pns norm_map)"

text \<open>
  The part of \<open>pick_generation_data_column\<close> after the metadata request, on the keys of
  the \<open>data\<close> object in their order.
\<close>

definition pick_column :: "string list \<Rightarrow> exn + string" where
  "pick_column keys =
     (let norm_map = map (\<lambda>k. (k, normalize_key k)) keys;
          pref_norm = map normalize_key preferred
      in case exact_pass pref_norm norm_map of
           Some k \<Rightarrow> Inr k
         | None \<Rightarrow>
            (case substring_pass pref_norm norm_map of
               Some k \<Rightarrow> Inr k
             | None \<Rightarrow>
                (case first_key (\<lambda>nk. contains nk ''gen'') norm_map of
                   Some k \<Rightarrow> Inr k
                 | None \<Rightarrow> (case keys of [] \<Rightarrow> Inl IndexError | k # _ \<Rightarrow> Inr k))))"

definition pick_generation_data_column :: "eia_service \<Rightarrow> string \<Rightarrow> string \<Rightarrow> exn + string" where
  "pick_generation_data_column service route api_key =
     (case eia_metadata service route api_key of
        Inl e \<Rightarrow> Inl e
      | Inr meta \<Rightarrow>
          (case py_get meta ''response'' (JObj []) of
             Inl e \<Rightarrow> Inl e
           | Inr resp \<Rightarrow>
               (case py_get resp ''data'' (JObj []) of
                  Inl e \<Rightarrow> Inl e
                | Inr d \<Rightarrow>
                    let data_obj = (if truthy d then d else JObj [])
                    in if \<not> truthy data_obj then Inr ''value''
                       else case data_obj of
                              JObj kvs \<Rightarrow> pick_column (map fst kvs)
                            | _ \<Rightarrow> Inl AttributeError)))"

text \<open>
  A facet value as the EIA facet endpoint describes it: a dict whose members \<open>id\<close>,
  \<open>name\<close> and \<open>alias\<close> are strings, or are absent or null (\<open>None\<close>).
  \<open>str(f.get("id") or "")\<close> is then the string, or the empty string.
\<close>

record facet =
  facet_id :: "string option"
  facet_name :: "string option"
  facet_alias :: "string option"

definition str_or_empty :: "string option \<Rightarrow> string" where
  "str_or_empty v = (case v of None \<Rightarrow> [] | Some s \<Rightarrow> s)"

text \<open>The first loop of \<open>choose_facet_id\<close>, over the facet values.\<close>

fun exact_scan :: "string list \<Rightarrow> facet list \<Rightarrow> facet option" where
  "exact_scan prefer_ids_u [] = None"
| "exact_scan prefer_ids_u (f # fs) =
     (if upper (str_or_empty (facet_id f)) \<in> set prefer_ids_u then Some f
      else exact_scan prefer_ids_u fs)"

definition blob :: "facet \<Rightarrow> string" where
  "blob f =
     lower (str_or_empty (facet_id f) @ '' '' @ str_or_empty (facet_name f) @ '' '' @
            str_or_empty (facet_alias f))"

text \<open>\<open>any(n in blob for n in needles)\<close>.\<close>

fun any_needle :: "string list \<Rightarrow> string \<Rightarrow> bool" where
  "any_needle [] b = False"
| "any_needle (n # ns) b = (contains b n \<or> any_needle ns b)"

text \<open>The second loop, again over the facet values.\<close>

fun needle_scan :: "string list \<Rightarrow> facet list \<Rightarrow> facet option" where
  "needle_scan needles [] = None"
| "needle_scan needles (f # fs) =
     (if any_needle needles (blob f) then Some f else needle_scan needles fs)"

definition choose_facet_id :: "facet list \<Rightarrow> string list \<Rightarrow> string list \<Rightarrow> string option" where
  "choose_facet_id facet_values prefer_ids prefer_name_contains =
     (if facet_values = [] then None
      else case exact_scan (map upper prefer_ids) facet_values of
             Some f \<Rightarrow> facet_id f
           | None \<Rightarrow>
              (case needle_scan (map lower prefer_name_contains) facet_values of
                 Some f \<Rightarrow> facet_id f
               | None \<Rightarrow> None))"

subsection \<open>The resolver as the specification words it\<close>

text \<open>
  The specification describes the resolver preference by preference: the exact
  preferences are tried in their order, each against all candidates, then the needles in
  their order, the first needle that some candidate contains deciding, and for it the
  first such candidate.
\<close>

fun spec_exact :: "string list \<Rightarrow> facet list \<Rightarrow> facet option" where
  "spec_exact [] candidates = None"
| "spec_exact (p # ps) candidates =
     (case find (\<lambda>f. upper (str_or_empty (facet_id f)) = upper p) candidates of
        Some f \<Rightarrow> Some f
      | None \<Rightarrow> spec_exact ps candidates)"

fun spec_substring :: "string list \<Rightarrow> facet list \<Rightarrow> facet option" where
  "spec_substring [] candidates = None"
| "spec_substring (n # ns) candidates =
     (case find (\<lambda>f. contains (blob f) (lower n)) candidates of
        Some f \<Rightarrow> Some f
      | None \<Rightarrow> spec_substring ns candidates)"

definition resolve_spec :: "facet list \<Rightarrow> string list \<Rightarrow> string list \<Rightarrow> string option" where
  "resolve_spec candidates exact_preferences substring_preferences =
     (case spec_exact exact_preferences candidates of
        Some f \<Rightarrow> facet_id f
      | None \<Rightarrow>
         (case spec_substring substring_preferences candidates of
            Some f \<Rightarrow> facet_id f
          | None \<Rightarrow> None))"

subsection \<open>Facet values used as examples\<close>

definition cand :: "string \<Rightarrow> string \<Rightarrow> facet" where
  "cand i n = \<lparr>facet_id = Some i, facet_name = Some n, facet_alias = None\<rparr>"

section \<open>electric.py: the merge by period in the dashboard script\<close>

text \<open>
  The rows of the two series as the script reads them from \<open>data.json\<close>: the period is
  a string such as \<open>2021-01\<close>, every other property may be absent (\<open>None\<close>) or hold
  any JSON value, null included.
\<close>

record sales_row =
  s_period :: string
  s_sales :: "json option"
  s_revenue :: "json option"
  s_price :: "json option"

record generation_row =
  g_period :: string
  g_generation :: "json option"

record merged_row =
  period :: string
  sales :: json
  revenue :: json
  price :: json
  generation :: json

text \<open>\<open>v ?? null\<close>: an absent property and null both give null.\<close>

definition nullish :: "json option \<Rightarrow> json" where
  "nullish v = (case v of None \<Rightarrow> JNull | Some x \<Rightarrow> x)"

text \<open>
  \<open>byPeriod\<close> is a \<open>Map\<close>: its entries stay in insertion order and \<open>set\<close> on an
  existing key keeps the position, as \<open>dict_set\<close> does; \<open>get\<close> is \<open>map_of\<close>.
\<close>

fun retail_loop :: "sales_row list \<Rightarrow> (string \<times> merged_row) list \<Rightarrow> (string \<times> merged_row) list" where
  "retail_loop [] byPeriod = byPeriod"
| "retail_loop (r # rs) byPeriod =
     retail_loop rs
       (dict_set byPeriod (s_period r)
          \<lparr>period = s_period r,
           sales = nullish (s_sales r),
           revenue = nullish (s_revenue r),
           price = nullish (s_price r),
           generation = JNull\<rparr>)"

fun gen_loop :: "generation_row list \<Rightarrow> (string \<times> merged_row) list \<Rightarrow> (string \<times> merged_row) list" where
  "gen_loop [] byPeriod = byPeriod"
| "gen_loop (g # gs) byPeriod =
     (let p = g_period g;
          cur = (case map_of byPeriod p of
                   Some row \<Rightarrow> row
                 | None \<Rightarrow> \<lparr>period = p, sales = JNull, revenue = JNull, price = JNull, generation = JNull\<rparr>);
          cur = cur\<lparr>generation := nullish (g_generation g)\<rparr>
      in gen_loop gs (dict_set byPeriod p cur))"

text \<open>
  \<open>Array.from(byPeriod.keys()).sort()\<close> compares strings by code units, which is the
  lexicographic order on character lists here.  \<open>byPeriod.get(p)\<close> may in principle be
  undefined, so the merged array holds optional rows.
\<close>

definition merge_by_period :: "sales_row list \<Rightarrow> generation_row list \<Rightarrow> merged_row option list" where
  "merge_by_period retail_rows gen_rows =
     (let byPeriod = gen_loop gen_rows (retail_loop retail_rows []);
          periods = sort (map fst byPeriod)
      in map (\<lambda>p. map_of byPeriod p) periods)"

subsection \<open>Two series used as examples\<close>

definition retail_2021 :: "sales_row list" where
  "retail_2021 = [\<lparr>s_period = ''2021-01'', s_sales = Some (JInt 100), s_revenue = None, s_price = None\<rparr>]"

definition gen_2021 :: "generation_row list" where
  "gen_2021 = [\<lparr>g_period = ''2021-02'', g_generation = Some (JInt 50)\<rparr>]"

section \<open>crash.py: from features to a data frame\<close>






text \<open>
  \<open>pd.DataFrame(rows)\<close> for a list of dicts: one column for each key, in the order of
  first appearance, and \<open>NaN\<close> where a row has no such key.
\<close>

definition first_seen :: "'a list \<Rightarrow> 'a list" where
  "first_seen xs = rev (remdups (rev xs))"






subsection \<open>Calendar dates, and a conversion used as an example\<close>









section \<open>The retry loop\<close>

text \<open>
  Two facts about the loop that the theorems on the executor share: what it does when
  every attempt fails, and what it does when some attempt succeeds after failures.
\<close>

lemma retry_loop_all_fail:
  "(\<And>i. i < length as \<Longrightarrow> attempt_once (srv (length (reqs w) + i) url ps) = Inl (errs ! i)) \<Longrightarrow>
   length errs = length as \<Longrightarrow>
   retry_loop srv url ps as last_err w =
     (Inl (if as = [] then last_err else Some (last errs)),
      w\<lparr>reqs := reqs w @ map (\<lambda>a. (url, ps, a)) as,
        slept := slept w @ map (\<lambda>a. min (2 ^ a) 20) as\<rparr>)"
proof (induction as arbitrary: w last_err errs)
  case Nil
  then show ?case by simp
next
  case (Cons a as)
  obtain e es where errs: "errs = e # es"
    using Cons.prems(2) by (cases errs) auto
  have first: "attempt_once (srv (length (reqs w)) url ps) = Inl e"
    using Cons.prems(1)[of 0] errs by simp
  let ?w = "w\<lparr>reqs := reqs w @ [(url, ps, a)], slept := slept w @ [min (2 ^ a) 20]\<rparr>"
  have rest: "retry_loop srv url ps as (Some e) ?w =
     (Inl (if as = [] then Some e else Some (last es)),
      ?w\<lparr>reqs := reqs ?w @ map (\<lambda>a. (url, ps, a)) as,
        slept := slept ?w @ map (\<lambda>a. min (2 ^ a) 20) as\<rparr>)"
  proof (rule Cons.IH)
    fix i assume "i < length as"
    then show "attempt_once (srv (length (reqs ?w) + i) url ps) = Inl (es ! i)"
      using Cons.prems(1)[of "Suc i"] errs by simp
  next
    show "length es = length as" using Cons.prems(2) errs by simp
  qed
  show ?case
    using first rest errs Cons.prems(2) by (auto simp: Let_def)
qed

lemma retry_loop_success_after:
  "(\<And>i. i < length pre \<Longrightarrow> isl (attempt_once (srv (length (reqs w) + i) url ps))) \<Longrightarrow>
   attempt_once (srv (length (reqs w) + length pre) url ps) = Inr d \<Longrightarrow>
   retry_loop srv url ps (pre @ a # post) last_err w =
     (Inr d,
      w\<lparr>reqs := reqs w @ map (\<lambda>a. (url, ps, a)) (pre @ [a]),
        slept := slept w @ map (\<lambda>a. min (2 ^ a) 20) pre\<rparr>)"
proof (induction pre arbitrary: w last_err)
  case Nil
  then show ?case by (simp add: Let_def)
next
  case (Cons p pre)
  obtain e where first: "attempt_once (srv (length (reqs w)) url ps) = Inl e"
    using Cons.prems(1)[of 0] by (cases "attempt_once (srv (length (reqs w)) url ps)") auto
  let ?w = "w\<lparr>reqs := reqs w @ [(url, ps, p)], slept := slept w @ [min (2 ^ p) 20]\<rparr>"
  have rest: "retry_loop srv url ps (pre @ a # post) (Some e) ?w =
     (Inr d,
      ?w\<lparr>reqs := reqs ?w @ map (\<lambda>a. (url, ps, a)) (pre @ [a]),
        slept := slept ?w @ map (\<lambda>a. min (2 ^ a) 20) pre\<rparr>)"
  proof (rule Cons.IH)
    fix i assume "i < length pre"
    then show "isl (attempt_once (srv (length (reqs ?w) + i) url ps))"
      using Cons.prems(1)[of "Suc i"] by simp
  next
    show "attempt_once (srv (length (reqs ?w) + length pre) url ps) = Inr d"
      using Cons.prems(2) by simp
  qed
  show ?case
    using first rest by (simp add: Let_def)
qed

lemma transport_failure_fails: "transport_failure r \<Longrightarrow> isl (attempt_once r)"
  by (cases r) (auto split: option.splits)

lemma error_payload_fails: "error_payload r = Some p \<Longrightarrow> attempt_once r = Inl (ArcGISError p)"
  by (cases r) (auto split: option.splits json.splits if_splits)

lemma upt_split_at: "n < m \<Longrightarrow> [0..<m] = [0..<n] @ n # [Suc n..<m]"
  by (metis less_imp_le_nat upt_add_eq_append upt_conv_Cons zero_le le_add_diff_inverse add_0)

text \<open>
  Claim C6.  When the first \<open>n\<close> attempts meet transport failures, \<open>n\<close> below the
  number of attempts, and attempt \<open>n\<close> succeeds, the executor returns the data of that
  attempt, after \<open>n + 1\<close> HTTP requests and \<open>n\<close> sleeps, and raises nothing.  When
  every attempt meets a transport failure, it makes all its attempts and raises the
  exhaustion error, which wraps the exception of the last attempt.
\<close>

theorem request_json_recovers_or_exhausts:
  "(n < nat retries \<and>
    (\<forall>i<n. transport_failure (srv (length (reqs w) + i) url ps)) \<and>
    attempt_once (srv (length (reqs w) + n) url ps) = Inr d
    \<longrightarrow> request_json srv url ps retries w =
          (Inr d, w\<lparr>reqs := reqs w @ map (\<lambda>a. (url, ps, a)) [0..<Suc n],
                    slept := slept w @ map (\<lambda>a. min (2 ^ a) 20) [0..<n]\<rparr>))
   \<and>
   (0 < retries \<and>
    (\<forall>i<nat retries. transport_failure (srv (length (reqs w) + i) url ps))
    \<longrightarrow> (\<exists>e. attempt_once (srv (length (reqs w) + (nat retries - 1)) url ps) = Inl e \<and>
             fst (request_json srv url ps retries w) = Inl (RequestFailed retries (Some e)) \<and>
             length (reqs (snd (request_json srv url ps retries w))) = length (reqs w) + nat retries))"
proof (intro conjI impI)
  assume h: "n < nat retries \<and>
    (\<forall>i<n. transport_failure (srv (length (reqs w) + i) url ps)) \<and>
    attempt_once (srv (length (reqs w) + n) url ps) = Inr d"
  have split: "[0..<nat retries] = [0..<n] @ n # [Suc n..<nat retries]"
    using h by (simp add: upt_split_at)
  have "retry_loop srv url ps ([0..<n] @ n # [Suc n..<nat retries]) None w =
     (Inr d, w\<lparr>reqs := reqs w @ map (\<lambda>a. (url, ps, a)) ([0..<n] @ [n]),
               slept := slept w @ map (\<lambda>a. min (2 ^ a) 20) [0..<n]\<rparr>)"
    using h by (intro retry_loop_success_after) (auto intro: transport_failure_fails)
  then show "request_json srv url ps retries w =
          (Inr d, w\<lparr>reqs := reqs w @ map (\<lambda>a. (url, ps, a)) [0..<Suc n],
                    slept := slept w @ map (\<lambda>a. min (2 ^ a) 20) [0..<n]\<rparr>)"
    by (simp add: request_json_def split)
next
  assume h: "0 < retries \<and>
    (\<forall>i<nat retries. transport_failure (srv (length (reqs w) + i) url ps))"
  define errs where "errs = map (\<lambda>i. projl (attempt_once (srv (length (reqs w) + i) url ps))) [0..<nat retries]"
  have len: "length errs = length [0..<nat retries]"
    by (simp add: errs_def)
  have each: "\<And>i. i < length [0..<nat retries] \<Longrightarrow>
      attempt_once (srv (length (reqs w) + i) url ps) = Inl (errs ! i)"
    using h by (auto simp: errs_def dest!: transport_failure_fails)
  have loop: "retry_loop srv url ps [0..<nat retries] None w =
     (Inl (if [0..<nat retries] = [] then None else Some (last errs)),
      w\<lparr>reqs := reqs w @ map (\<lambda>a. (url, ps, a)) [0..<nat retries],
        slept := slept w @ map (\<lambda>a. min (2 ^ a) 20) [0..<nat retries]\<rparr>)"
    using each len
    by (rule retry_loop_all_fail [where as = "[0..<nat retries]" and srv = srv and w = w
          and url = url and ps = ps and errs = errs and last_err = None])
  have ne: "errs \<noteq> []" using h by (simp add: errs_def)
  have last: "last errs = errs ! (nat retries - 1)"
    using ne len by (simp add: last_conv_nth)
  have "attempt_once (srv (length (reqs w) + (nat retries - 1)) url ps) = Inl (last errs)"
    using each [of "nat retries - 1"] h last by simp
  moreover have "fst (request_json srv url ps retries w) = Inl (RequestFailed retries (Some (last errs)))"
    using loop h by (simp add: request_json_def)
  moreover have "length (reqs (snd (request_json srv url ps retries w))) = length (reqs w) + nat retries"
    using loop by (simp add: request_json_def)
  ultimately show "\<exists>e. attempt_once (srv (length (reqs w) + (nat retries - 1)) url ps) = Inl e \<and>
             fst (request_json srv url ps retries w) = Inl (RequestFailed retries (Some e)) \<and>
             length (reqs (snd (request_json srv url ps retries w))) = length (reqs w) + nat retries"
    by blast
qed

theorem request_json_recovers_or_exhausts_witness:
  "request_json flaky ARCGIS_QUERY_URL (count_params ''1=1'') 5 w0 =
     (Inr (JObj [(''count'', JInt 7)]),
      w0\<lparr>reqs := reqs w0 @ map (\<lambda>a. (ARCGIS_QUERY_URL, count_params ''1=1'', a)) [0..<Suc 2],
         slept := slept w0 @ map (\<lambda>a. min (2 ^ a) 20) [0..<2]\<rparr>)
   \<and> fst (request_json down ARCGIS_QUERY_URL (count_params ''1=1'') 5 w0) =
       Inl (RequestFailed 5 (Some (HTTPError 503)))
   \<and> length (reqs (snd (request_json down ARCGIS_QUERY_URL (count_params ''1=1'') 5 w0))) = 5"
proof -
  have a: "request_json flaky ARCGIS_QUERY_URL (count_params ''1=1'') 5 w0 =
     (Inr (JObj [(''count'', JInt 7)]),
      w0\<lparr>reqs := reqs w0 @ map (\<lambda>a. (ARCGIS_QUERY_URL, count_params ''1=1'', a)) [0..<Suc 2],
         slept := slept w0 @ map (\<lambda>a. min (2 ^ a) 20) [0..<2]\<rparr>)"
    using request_json_recovers_or_exhausts
      [of 2 5 flaky w0 ARCGIS_QUERY_URL "count_params ''1=1''" "JObj [(''count'', JInt 7)]"]
    by (simp add: flaky_def w0_def)
  have b: "\<exists>e. attempt_once (down (length (reqs w0) + (nat 5 - 1)) ARCGIS_QUERY_URL (count_params ''1=1'')) = Inl e \<and>
             fst (request_json down ARCGIS_QUERY_URL (count_params ''1=1'') 5 w0) = Inl (RequestFailed 5 (Some e)) \<and>
             length (reqs (snd (request_json down ARCGIS_QUERY_URL (count_params ''1=1'') 5 w0))) = length (reqs w0) + nat 5"
    using request_json_recovers_or_exhausts
      [of 2 5 down w0 ARCGIS_QUERY_URL "count_params ''1=1''" "JObj [(''count'', JInt 7)]"]
    by (simp add: down_def)
  show ?thesis using a b by (auto simp: down_def w0_def)
qed

text \<open>
  Claim C1, as amended.  A well-formed response that carries an error payload is a
  failed attempt like any other: the ArcGIS error is raised inside the \<open>try\<close> block and
  caught by the same \<open>except\<close> clause.  When every attempt is answered with an error
  payload, the executor makes all its attempts, sleeps \<open>min(2 ** attempt, 20)\<close> seconds
  after each, and raises the exhaustion error wrapping the last service error.
\<close>

theorem request_json_rejection_retried:
  assumes "0 < retries"
    and "\<forall>i<nat retries. error_payload (srv (length (reqs w) + i) url ps) = Some (pl i)"
  shows "request_json srv url ps retries w =
     (Inl (RequestFailed retries (Some (ArcGISError (pl (nat retries - 1))))),
      w\<lparr>reqs := reqs w @ map (\<lambda>a. (url, ps, a)) [0..<nat retries],
        slept := slept w @ map (\<lambda>a. min (2 ^ a) 20) [0..<nat retries]\<rparr>)"
proof -
  define errs where "errs = map (\<lambda>i. ArcGISError (pl i)) [0..<nat retries]"
  have len: "length errs = length [0..<nat retries]"
    by (simp add: errs_def)
  have each: "\<And>i. i < length [0..<nat retries] \<Longrightarrow>
      attempt_once (srv (length (reqs w) + i) url ps) = Inl (errs ! i)"
    using assms(2) by (simp add: errs_def error_payload_fails)
  have loop: "retry_loop srv url ps [0..<nat retries] None w =
     (Inl (if [0..<nat retries] = [] then None else Some (last errs)),
      w\<lparr>reqs := reqs w @ map (\<lambda>a. (url, ps, a)) [0..<nat retries],
        slept := slept w @ map (\<lambda>a. min (2 ^ a) 20) [0..<nat retries]\<rparr>)"
    using each len
    by (rule retry_loop_all_fail [where as = "[0..<nat retries]" and srv = srv and w = w
          and url = url and ps = ps and errs = errs and last_err = None])
  have ne: "errs \<noteq> []" using assms(1) by (simp add: errs_def)
  have "last errs = errs ! (nat retries - 1)"
    using ne len by (simp add: last_conv_nth)
  then have "last errs = ArcGISError (pl (nat retries - 1))"
    using assms(1) by (simp add: errs_def)
  then show ?thesis
    using loop assms(1) by (simp add: request_json_def)
qed

theorem request_json_rejection_retried_witness:
  "request_json rejecting ARCGIS_QUERY_URL (count_params ''1=1'') 5 w0 =
     (Inl (RequestFailed 5 (Some (ArcGISError invalid_query))),
      w0\<lparr>reqs := reqs w0 @ map (\<lambda>a. (ARCGIS_QUERY_URL, count_params ''1=1'', a)) [0..<nat 5],
        slept := slept w0 @ map (\<lambda>a. min (2 ^ a) 20) [0..<nat 5]\<rparr>)"
  using request_json_rejection_retried
    [of 5 rejecting w0 ARCGIS_QUERY_URL "count_params ''1=1''" "\<lambda>i. invalid_query"]
  by (simp add: rejecting_def)

text \<open>
  Claim C1, as stated, fails: against a service that rejects every request with an error
  payload, the executor with five attempts sends five HTTP requests and sleeps 31
  seconds before it raises, and what it raises is the exhaustion error.
\<close>

theorem request_json_rejection_counterexample:
  "fst (request_json rejecting ARCGIS_QUERY_URL (count_params ''1=1'') 5 w0) =
     Inl (RequestFailed 5 (Some (ArcGISError invalid_query)))
   \<and> length (reqs (snd (request_json rejecting ARCGIS_QUERY_URL (count_params ''1=1'') 5 w0))) = 5
   \<and> slept (snd (request_json rejecting ARCGIS_QUERY_URL (count_params ''1=1'') 5 w0)) = [1, 2, 4, 8, 16]"
  by (simp add: request_json_def rejecting_def w0_def upt_conv_Cons Let_def)

section \<open>Counting and paging\<close>

text \<open>
  Each call of the executor with at least one attempt shows as exactly one request made
  under \<open>attempt = 0\<close>, whatever the outcome of the call.
\<close>

lemma logical_requests_append:
  "logical_requests (w\<lparr>reqs := reqs w @ [(url, ps, a)]\<rparr>) =
     logical_requests w @ (if a = 0 then [(url, ps)] else [])"
  by (simp add: logical_requests_def)

lemma logical_requests_slept [simp]:
  "logical_requests (w\<lparr>slept := s\<rparr>) = logical_requests w"
  by (simp add: logical_requests_def)

lemma retry_loop_later_attempts:
  "retry_loop srv url ps as last_err w = (r, w') \<Longrightarrow> 0 \<notin> set as \<Longrightarrow>
   logical_requests w' = logical_requests w"
proof (induction as arbitrary: w last_err)
  case Nil
  then show ?case by simp
next
  case (Cons a as)
  show ?case
  proof (cases "attempt_once (srv (length (reqs w)) url ps)")
    case (Inr d)
    then show ?thesis
      using Cons.prems by (auto simp: Let_def logical_requests_append)
  next
    case (Inl e)
    then have "retry_loop srv url ps as (Some e)
        (w\<lparr>reqs := reqs w @ [(url, ps, a)], slept := slept w @ [min (2 ^ a) 20]\<rparr>) = (r, w')"
      using Cons.prems(1) by (simp add: Let_def)
    then have "logical_requests w' =
        logical_requests (w\<lparr>reqs := reqs w @ [(url, ps, a)], slept := slept w @ [min (2 ^ a) 20]\<rparr>)"
      using Cons.IH Cons.prems(2) by simp
    then show ?thesis
      using Cons.prems(2) by (simp add: logical_requests_def)
  qed
qed

lemma request_json_logical:
  assumes "0 < retries" and "request_json srv url ps retries w = (r, w')"
  shows "logical_requests w' = logical_requests w @ [(url, ps)]"
proof -
  have upt: "[0..<nat retries] = 0 # [1..<nat retries]"
    using assms(1) by (simp add: upt_conv_Cons)
  obtain r0 where loop: "retry_loop srv url ps (0 # [1..<nat retries]) None w = (r0, w')"
    using assms(2) by (auto simp: request_json_def upt split: prod.splits sum.splits)
  show ?thesis
  proof (cases "attempt_once (srv (length (reqs w)) url ps)")
    case (Inr d)
    then show ?thesis
      using loop by (auto simp: Let_def logical_requests_append)
  next
    case (Inl e)
    then have "retry_loop srv url ps [1..<nat retries] (Some e)
        (w\<lparr>reqs := reqs w @ [(url, ps, 0)], slept := slept w @ [min (2 ^ 0) 20]\<rparr>) = (r0, w')"
      using loop by (simp add: Let_def)
    then have "logical_requests w' =
        logical_requests (w\<lparr>reqs := reqs w @ [(url, ps, 0)], slept := slept w @ [min (2 ^ 0) 20]\<rparr>)"
      by (rule retry_loop_later_attempts) simp
    then show ?thesis
      by (simp add: logical_requests_def)
  qed
qed

lemma page_loop_logical:
  "page_loop srv wh out_fields idxs features w = (Inr fs, w') \<Longrightarrow>
   logical_requests w' = logical_requests w @
     map (\<lambda>i. (ARCGIS_QUERY_URL, page_params wh out_fields (int i * MAX_RECORD_COUNT))) idxs"
proof (induction idxs arbitrary: features w)
  case Nil
  then show ?case by simp
next
  case (Cons i idxs)
  let ?ps = "page_params wh out_fields (int i * MAX_RECORD_COUNT)"
  obtain r w1 where rj: "request_json srv ARCGIS_QUERY_URL ?ps 5 w = (r, w1)"
    by (cases "request_json srv ARCGIS_QUERY_URL ?ps 5 w") auto
  have lw1: "logical_requests w1 = logical_requests w @ [(ARCGIS_QUERY_URL, ?ps)]"
    using request_json_logical [OF _ rj] by simp
  from Cons.prems rj obtain page_features where
    "page_loop srv wh out_fields idxs (features @ page_features) w1 = (Inr fs, w')"
    by (auto simp: Let_def split: sum.splits json.splits)
  then have "logical_requests w' = logical_requests w1 @
     map (\<lambda>i. (ARCGIS_QUERY_URL, page_params wh out_fields (int i * MAX_RECORD_COUNT))) idxs"
    by (rule Cons.IH)
  then show ?case using lw1 by simp
qed

text \<open>
  When a page request raises, the enumeration stops there: the page requests issued
  are an initial part of the same sequence.
\<close>

lemma page_loop_prefix:
  "page_loop srv wh out_fields idxs features w = (r, w') \<Longrightarrow>
   \<exists>k\<le>length idxs. logical_requests w' = logical_requests w @
     map (\<lambda>i. (ARCGIS_QUERY_URL, page_params wh out_fields (int i * MAX_RECORD_COUNT))) (take k idxs)"
proof (induction idxs arbitrary: features w)
  case Nil
  then show ?case by simp
next
  case (Cons i idxs)
  let ?ps = "page_params wh out_fields (int i * MAX_RECORD_COUNT)"
  let ?req = "\<lambda>i. (ARCGIS_QUERY_URL, page_params wh out_fields (int i * MAX_RECORD_COUNT))"
  obtain r1 w1 where rj: "request_json srv ARCGIS_QUERY_URL ?ps 5 w = (r1, w1)"
    by (cases "request_json srv ARCGIS_QUERY_URL ?ps 5 w") auto
  have lw1: "logical_requests w1 = logical_requests w @ [?req i]"
    using request_json_logical [OF _ rj] by simp
  consider (stop) "w' = w1"
    | (go) page_features where
        "page_loop srv wh out_fields idxs (features @ page_features) w1 = (r, w')"
    using Cons.prems rj by (auto simp: Let_def split: sum.splits json.splits)
  then show ?case
  proof cases
    case stop
    then have "logical_requests w' = logical_requests w @ map ?req (take 1 (i # idxs))"
      using lw1 by simp
    then show ?thesis
      by (intro exI [of _ 1]) simp
  next
    case go
    then obtain k where k: "k \<le> length idxs"
      and eq: "logical_requests w' = logical_requests w1 @ map ?req (take k idxs)"
      using Cons.IH by blast
    have "logical_requests w' = logical_requests w @ map ?req (take (Suc k) (i # idxs))"
      using eq lw1 by simp
    then show ?thesis
      using k by (intro exI [of _ "Suc k"]) simp
  qed
qed

lemma page_count_ceiling: "page_count tot = \<lceil>real_of_int tot / real_of_int MAX_RECORD_COUNT\<rceil>"
  by (simp add: page_count_def ceiling_divide_eq_div)

text \<open>
  Claim C4.  When the count query reports a total above zero and the enumeration returns,
  the page requests issued after the count query are exactly
  \<open>ceil(total / MAX_RECORD_COUNT)\<close> many, in this order, with the offsets
  \<open>0, MAX_RECORD_COUNT, 2 * MAX_RECORD_COUNT, ...\<close>, which are pairwise distinct; every
  page request carries its offset as \<open>resultOffset\<close> and orders by \<open>OBJECTID\<close>.
\<close>

theorem fetch_all_features_pages:
  assumes "get_count srv wh w = (Inr tot, w1)"
    and "0 < tot"
    and "fetch_all_features srv wh out_fields w = (Inr fs, w2)"
  shows "logical_requests w2 = logical_requests w1 @
           map (\<lambda>i. (ARCGIS_QUERY_URL, page_params wh out_fields (int i * MAX_RECORD_COUNT)))
               [0..<nat \<lceil>real_of_int tot / real_of_int MAX_RECORD_COUNT\<rceil>]
         \<and> distinct (map (\<lambda>i. int i * MAX_RECORD_COUNT)
               [0..<nat \<lceil>real_of_int tot / real_of_int MAX_RECORD_COUNT\<rceil>])
         \<and> (\<forall>offset. map_of (page_params wh out_fields offset) ''resultOffset'' = Some (str_int offset)
               \<and> map_of (page_params wh out_fields offset) ''orderByFields'' = Some ''OBJECTID'')"
proof -
  have "page_loop srv wh out_fields [0..<nat (page_count tot)] [] w1 = (Inr fs, w2)"
    using assms by (simp add: fetch_all_features_def)
  then have "logical_requests w2 = logical_requests w1 @
     map (\<lambda>i. (ARCGIS_QUERY_URL, page_params wh out_fields (int i * MAX_RECORD_COUNT)))
       [0..<nat (page_count tot)]"
    by (rule page_loop_logical)
  moreover have "distinct (map (\<lambda>i. int i * MAX_RECORD_COUNT) [0..<nat (page_count tot)])"
    by (simp add: distinct_map inj_on_def MAX_RECORD_COUNT_def)
  moreover have "\<forall>offset. map_of (page_params wh out_fields offset) ''resultOffset'' = Some (str_int offset)
               \<and> map_of (page_params wh out_fields offset) ''orderByFields'' = Some ''OBJECTID''"
    by (simp add: page_params_def)
  ultimately show ?thesis
    unfolding page_count_ceiling by blast
qed

lemma paging_count:
  "get_count paging ''STATE = 4 AND YEAR = 2022'' w0 =
     (Inr 4500, \<lparr>reqs = [(ARCGIS_QUERY_URL, count_params ''STATE = 4 AND YEAR = 2022'', 0)], slept = []\<rparr>)"
  by (simp add: get_count_def request_json_def paging_def w0_def upt_conv_Cons Let_def)

theorem fetch_all_features_pages_witness:
  "logical_requests (snd (fetch_all_features paging ''STATE = 4 AND YEAR = 2022'' ''*'' w0)) =
     [(ARCGIS_QUERY_URL, count_params ''STATE = 4 AND YEAR = 2022''),
      (ARCGIS_QUERY_URL, page_params ''STATE = 4 AND YEAR = 2022'' ''*'' 0),
      (ARCGIS_QUERY_URL, page_params ''STATE = 4 AND YEAR = 2022'' ''*'' 2000),
      (ARCGIS_QUERY_URL, page_params ''STATE = 4 AND YEAR = 2022'' ''*'' 4000)]"
proof -
  let ?wh = "''STATE = 4 AND YEAR = 2022''"
  let ?w1 = "\<lparr>reqs = [(ARCGIS_QUERY_URL, count_params ?wh, 0)], slept = []\<rparr>"
  let ?f = "JObj [(''attributes'', JObj [])]"
  have pg: "\<And>n ps w. 0 < length (reqs w) \<Longrightarrow>
      request_json paging ARCGIS_QUERY_URL ps 5 w =
        (Inr (JObj [(''features'', JArr [?f])]), w\<lparr>reqs := reqs w @ [(ARCGIS_QUERY_URL, ps, 0)]\<rparr>)"
    by (simp add: request_json_def paging_def upt_conv_Cons Let_def)
  have run: "fetch_all_features paging ?wh ''*'' w0 =
      (Inr [?f, ?f, ?f],
       \<lparr>reqs = [(ARCGIS_QUERY_URL, count_params ?wh, 0),
                (ARCGIS_QUERY_URL, page_params ?wh ''*'' 0, 0),
                (ARCGIS_QUERY_URL, page_params ?wh ''*'' 2000, 0),
                (ARCGIS_QUERY_URL, page_params ?wh ''*'' 4000, 0)], slept = []\<rparr>)"
    by (simp add: fetch_all_features_def paging_count page_count_def MAX_RECORD_COUNT_def
        upt_conv_Cons pg Let_def)
  have ceil: "nat \<lceil>real_of_int 4500 / real_of_int MAX_RECORD_COUNT\<rceil> = 3"
    by (simp add: MAX_RECORD_COUNT_def ceiling_divide_eq_div)
  have run': "fetch_all_features paging ?wh ''*'' w0 =
      (Inr [?f, ?f, ?f], snd (fetch_all_features paging ?wh ''*'' w0))"
    by (simp add: run)
  have "logical_requests ?w1 = [(ARCGIS_QUERY_URL, count_params ?wh)]"
    by (simp add: logical_requests_def)
  then show ?thesis
    using fetch_all_features_pages [OF paging_count _ run']
    by (simp add: ceil upt_conv_Cons MAX_RECORD_COUNT_def)
qed

text \<open>
  Claim C9.  When the count request returns a JSON object, the count resolver returns 0,
  and raises nothing, both when the object reports a count of zero (the match set is
  empty) and when it has no \<open>count\<close> member at all.
\<close>

theorem get_count_zero:
  assumes "request_json srv ARCGIS_QUERY_URL (count_params wh) 5 w = (Inr (JObj kvs), w')"
    and "map_of kvs ''count'' = None \<or> map_of kvs ''count'' = Some (JInt 0)"
  shows "get_count srv wh w = (Inr 0, w')"
  using assms by (auto simp: get_count_def)

theorem get_count_zero_witness:
  "get_count no_count ''STATE = 4'' w0 =
     (Inr 0, \<lparr>reqs = [(ARCGIS_QUERY_URL, count_params ''STATE = 4'', 0)], slept = []\<rparr>)
   \<and> get_count empty_match ''STATE = 4'' w0 =
     (Inr 0, \<lparr>reqs = [(ARCGIS_QUERY_URL, count_params ''STATE = 4'', 0)], slept = []\<rparr>)"
proof -
  let ?w1 = "\<lparr>reqs = [(ARCGIS_QUERY_URL, count_params ''STATE = 4'', 0)], slept = []\<rparr>"
  have a: "request_json no_count ARCGIS_QUERY_URL (count_params ''STATE = 4'') 5 w0 =
      (Inr (JObj [(''objectIdFieldName'', JStr ''OBJECTID'')]), ?w1)"
    by (simp add: request_json_def no_count_def w0_def upt_conv_Cons Let_def)
  have b: "request_json empty_match ARCGIS_QUERY_URL (count_params ''STATE = 4'') 5 w0 =
      (Inr (JObj [(''count'', JInt 0)]), ?w1)"
    by (simp add: request_json_def empty_match_def w0_def upt_conv_Cons Let_def)
  show ?thesis
    using get_count_zero [OF a] get_count_zero [OF b] by simp
qed

section \<open>Empty results and the day range\<close>

lemma get_count_logical:
  assumes "get_count srv wh w = (r, w1)"
  shows "logical_requests w1 = logical_requests w @ [(ARCGIS_QUERY_URL, count_params wh)]"
proof -
  obtain r0 w' where rj: "request_json srv ARCGIS_QUERY_URL (count_params wh) 5 w = (r0, w')"
    by (cases "request_json srv ARCGIS_QUERY_URL (count_params wh) 5 w") auto
  have "w1 = w'"
    using assms rj by (auto simp: get_count_def split: sum.splits json.splits option.splits)
  then show ?thesis
    using request_json_logical [OF _ rj] by simp
qed

text \<open>
  Claim C5, as amended.  In \<open>crash.py\<close>, when the count query reports a total of zero,
  \<open>fetch_all_features\<close> returns the empty list without raising, and the only request
  made is the count query: no page request is issued.  In \<open>wildfire_report.py\<close> an
  empty result is an error by an explicit check: when the service delivers a table
  without rows (or without columns), \<open>fetch_fires\<close> raises a runtime error.
\<close>

theorem zero_total_and_empty_frame:
  "(get_count srv wh w = (Inr 0, w1)
      \<longrightarrow> fetch_all_features srv wh out_fields w = (Inr [], w1) \<and>
          logical_requests w1 = logical_requests w @ [(ARCGIS_QUERY_URL, count_params wh)])
   \<and>
   (1 \<le> days \<and> days \<le> 10 \<and> (\<forall>url. web url = TextReply status text) \<and>
    \<not> (400 \<le> status \<and> status < 600) \<and>
    \<not> startswith (lstrip text) ''<'' \<and> \<not> startswith (strip text) ''{'' \<and>
    read_csv text = Inr df \<and> empty_frame df
      \<longrightarrow> fst (fetch_fires web read_csv mapkey source bbox days date urls) =
          Inl (RuntimeError ''No detections returned. Try increasing --days or changing --source/--bbox.''))"
proof (intro conjI impI)
  assume h: "get_count srv wh w = (Inr 0, w1)"
  then show "fetch_all_features srv wh out_fields w = (Inr [], w1)"
    by (simp add: fetch_all_features_def)
  show "logical_requests w1 = logical_requests w @ [(ARCGIS_QUERY_URL, count_params wh)]"
    using h by (rule get_count_logical)
next
  assume "1 \<le> days \<and> days \<le> 10 \<and> (\<forall>url. web url = TextReply status text) \<and>
    \<not> (400 \<le> status \<and> status < 600) \<and>
    \<not> startswith (lstrip text) ''<'' \<and> \<not> startswith (strip text) ''{'' \<and>
    read_csv text = Inr df \<and> empty_frame df"
  then show "fst (fetch_fires web read_csv mapkey source bbox days date urls) =
          Inl (RuntimeError ''No detections returned. Try increasing --days or changing --source/--bbox.'')"
    by (simp add: fetch_fires_def Let_def)
qed

lemma quiet_day_frame:
  "plain_csv header_line =
     Inr \<lparr>columns = [''latitude'', ''longitude'', ''frp''], rows = []\<rparr>"
  by (simp add: plain_csv_def header_line_def)

lemma quiet_day_guards:
  "\<not> startswith (lstrip header_line) ''<'' \<and>
   \<not> startswith (strip header_line) ''{''"
  by (simp add: lstrip_def strip_def rstrip_def is_space_def header_line_def)

text \<open>
  Claim C5, as stated, fails for the wildfire fetch: a reply that holds the header line
  and no detection is read as a frame without rows, and \<open>fetch_fires\<close> raises.
\<close>

theorem fetch_fires_empty_counterexample:
  "plain_csv header_line =
     Inr \<lparr>columns = [''latitude'', ''longitude'', ''frp''], rows = []\<rparr>
   \<and> fetch_fires quiet_day plain_csv ''KEY'' ''VIIRS_SNPP_NRT'' None 3 None [] =
     (Inl (RuntimeError ''No detections returned. Try increasing --days or changing --source/--bbox.''),
      [build_url ''KEY'' ''VIIRS_SNPP_NRT'' ''world'' 3 None])"
  using quiet_day_guards
  by (simp add: fetch_fires_def quiet_day_def quiet_day_frame empty_frame_def Let_def)

theorem zero_total_and_empty_frame_witness:
  "fetch_all_features empty_match ''STATE = 4'' ''*'' w0 =
     (Inr [], \<lparr>reqs = [(ARCGIS_QUERY_URL, count_params ''STATE = 4'', 0)], slept = []\<rparr>)
   \<and> logical_requests \<lparr>reqs = [(ARCGIS_QUERY_URL, count_params ''STATE = 4'', 0)], slept = []\<rparr> =
       logical_requests w0 @ [(ARCGIS_QUERY_URL, count_params ''STATE = 4'')]
   \<and> fst (fetch_fires quiet_day plain_csv ''KEY'' ''VIIRS_SNPP_NRT'' None 3 None []) =
       Inl (RuntimeError ''No detections returned. Try increasing --days or changing --source/--bbox.'')"
proof -
  let ?w1 = "\<lparr>reqs = [(ARCGIS_QUERY_URL, count_params ''STATE = 4'', 0)], slept = []\<rparr>"
  have c: "get_count empty_match ''STATE = 4'' w0 = (Inr 0, ?w1)"
    by (simp add: get_count_def request_json_def empty_match_def w0_def upt_conv_Cons Let_def)
  have e: "empty_frame \<lparr>columns = [''latitude'', ''longitude'', ''frp''], rows = []\<rparr>"
    by (simp add: empty_frame_def)
  have q: "\<forall>url. quiet_day url = TextReply 200 header_line"
    by (simp add: quiet_day_def)
  show ?thesis
    using zero_total_and_empty_frame
      [of empty_match "''STATE = 4''" w0 ?w1 "''*''" 3 quiet_day 200
          header_line plain_csv
          "\<lparr>columns = [''latitude'', ''longitude'', ''frp''], rows = []\<rparr>"
          "''KEY''" "''VIIRS_SNPP_NRT''" None None "[]"]
      c e q quiet_day_guards quiet_day_frame
    by simp
qed

text \<open>
  Claim C10.  For a day range below 1 or above 10, \<open>fetch_fires\<close> raises the value
  error and leaves the list of requested URLs as it was; a URL is requested only when
  the day range lies in 1 to 10, and then exactly one is.
\<close>

theorem fetch_fires_day_range:
  "(days < 1 \<or> days > 10
      \<longrightarrow> fetch_fires web read_csv mapkey source bbox days date urls = (Inl ValueError, urls))
   \<and> (snd (fetch_fires web read_csv mapkey source bbox days date urls) \<noteq> urls
      \<longrightarrow> 1 \<le> days \<and> days \<le> 10)
   \<and> (1 \<le> days \<and> days \<le> 10
      \<longrightarrow> (\<exists>url. snd (fetch_fires web read_csv mapkey source bbox days date urls) = urls @ [url]))"
  by (auto simp: fetch_fires_def Let_def split: text_reply.splits sum.splits)

theorem fetch_fires_day_range_witness:
  "fetch_fires one_fire plain_csv ''KEY'' ''VIIRS_SNPP_NRT'' None 0 None [] = (Inl ValueError, [])
   \<and> fetch_fires one_fire plain_csv ''KEY'' ''VIIRS_SNPP_NRT'' None 11 None [] = (Inl ValueError, [])
   \<and> (\<exists>url. snd (fetch_fires one_fire plain_csv ''KEY'' ''VIIRS_SNPP_NRT'' None 3 None []) = [] @ [url])"
  using fetch_fires_day_range [of 0 one_fire plain_csv "''KEY''" "''VIIRS_SNPP_NRT''" None None "[]"]
    fetch_fires_day_range [of 11 one_fire plain_csv "''KEY''" "''VIIRS_SNPP_NRT''" None None "[]"]
    fetch_fires_day_range [of 3 one_fire plain_csv "''KEY''" "''VIIRS_SNPP_NRT''" None None "[]"]
  by simp

section \<open>Choosing a facet value and a data column\<close>

text \<open>The string tests, in terms of concatenation.\<close>

lemma startswith_iff: "startswith s p \<longleftrightarrow> (\<exists>post. s = p @ post)"
  by (induction s p rule: startswith.induct) auto

lemma contains_iff: "contains s n \<longleftrightarrow> (\<exists>pre post. s = pre @ n @ post)"
proof (induction s)
  case Nil
  then show ?case by auto
next
  case (Cons c cs)
  show ?case
  proof
    assume "contains (c # cs) n"
    then consider "startswith (c # cs) n" | "contains cs n" by auto
    then show "\<exists>pre post. c # cs = pre @ n @ post"
    proof cases
      case 1
      then obtain post where "c # cs = n @ post" by (auto simp: startswith_iff)
      then have "c # cs = [] @ n @ post" by simp
      then show ?thesis by blast
    next
      case 2
      then obtain pre post where "cs = pre @ n @ post" using Cons.IH by blast
      then have "c # cs = (c # pre) @ n @ post" by simp
      then show ?thesis by blast
    qed
  next
    assume "\<exists>pre post. c # cs = pre @ n @ post"
    then obtain pre post where eq: "c # cs = pre @ n @ post" by blast
    show "contains (c # cs) n"
    proof (cases pre)
      case Nil
      then have "startswith (c # cs) n" using eq by (auto simp: startswith_iff)
      then show ?thesis by simp
    next
      case (Cons a pre')
      then have "cs = pre' @ n @ post" using eq by simp
      then have "contains cs n" using Cons.IH by blast
      then show ?thesis by simp
    qed
  qed
qed

lemma any_needle_iff: "any_needle ns b \<longleftrightarrow> (\<exists>n\<in>set ns. contains b n)"
  by (induction ns) auto

lemma exact_scan_find:
  "exact_scan (map upper ids) fv =
     find (\<lambda>f. \<exists>p\<in>set ids. upper (str_or_empty (facet_id f)) = upper p) fv"
  by (induction fv) auto

lemma needle_scan_find:
  "needle_scan (map lower ns) fv =
     find (\<lambda>f. \<exists>n\<in>set ns. contains (blob f) (lower n)) fv"
  by (induction fv) (auto simp: any_needle_iff)

text \<open>
  Claim C2, as amended.  \<open>choose_facet_id\<close> applies the two rules in this sequence, and
  each rule scans the candidates in candidate order: it returns the identifier of the
  first candidate whose identifier equals, ignoring case, any entry of the
  exact-preference list; if there is none, the identifier of the first candidate whose
  lower-cased text \<open>id name alias\<close>, joined by single spaces, contains any lower-cased
  needle; and none when no candidate satisfies either rule.
\<close>

theorem choose_facet_id_candidate_order:
  "choose_facet_id facet_values prefer_ids prefer_name_contains =
     (case find (\<lambda>f. \<exists>p\<in>set prefer_ids. upper (str_or_empty (facet_id f)) = upper p) facet_values of
        Some f \<Rightarrow> facet_id f
      | None \<Rightarrow>
         (case find (\<lambda>f. \<exists>n\<in>set prefer_name_contains. contains (blob f) (lower n)) facet_values of
            Some f \<Rightarrow> facet_id f
          | None \<Rightarrow> None))"
proof (cases facet_values)
  case Nil
  then show ?thesis by (simp add: choose_facet_id_def)
next
  case (Cons f fs)
  then have "facet_values \<noteq> []" by simp
  then show ?thesis
    unfolding choose_facet_id_def exact_scan_find needle_scan_find by simp
qed

theorem choose_facet_id_candidate_order_witness:
  "choose_facet_id [cand ''AZ'' [], cand ''CA'' []] [''AZ''] [] = Some ''AZ''
   \<and> choose_facet_id [cand ''ALL_FUELS'' ''All fuel types''] [''TOTAL''] [''all''] = Some ''ALL_FUELS''"
proof -
  have 1: "find (\<lambda>f. \<exists>p\<in>set [''AZ'']. upper (str_or_empty (facet_id f)) = upper p)
             [cand ''AZ'' [], cand ''CA'' []] = Some (cand ''AZ'' [])"
    by (simp add: cand_def str_or_empty_def)
  have 2: "find (\<lambda>f. \<exists>p\<in>set [''TOTAL'']. upper (str_or_empty (facet_id f)) = upper p)
             [cand ''ALL_FUELS'' ''All fuel types''] = None"
    by code_simp
  have 3: "find (\<lambda>f. \<exists>n\<in>set [''all'']. contains (blob f) (lower n))
             [cand ''ALL_FUELS'' ''All fuel types''] = Some (cand ''ALL_FUELS'' ''All fuel types'')"
    by code_simp
  show ?thesis
    using choose_facet_id_candidate_order [of "[cand ''AZ'' [], cand ''CA'' []]" "[''AZ'']" "[]"]
      choose_facet_id_candidate_order [of "[cand ''ALL_FUELS'' ''All fuel types'']" "[''TOTAL'']" "[''all'']"]
    by (simp only: 1 2 3 option.case) (simp add: cand_def)
qed

text \<open>
  Claim C2, as stated, fails on the order within each rule.  With the candidates
  \<open>US-AZ\<close>, \<open>AZ\<close> and the exact preferences \<open>AZ\<close>, \<open>US-AZ\<close>, \<open>ARIZONA\<close> the code
  returns \<open>US-AZ\<close>, the first candidate, where preference order gives \<open>AZ\<close>; with the
  needles \<open>all\<close>, \<open>total\<close> it returns the first candidate that contains any needle,
  where the first needle would decide for the second candidate.
\<close>

theorem choose_facet_id_order_counterexample:
  "choose_facet_id [cand ''US-AZ'' ''Arizona'', cand ''AZ'' ''Arizona''] [''AZ'', ''US-AZ'', ''ARIZONA''] []
     = Some ''US-AZ''
   \<and> resolve_spec [cand ''US-AZ'' ''Arizona'', cand ''AZ'' ''Arizona''] [''AZ'', ''US-AZ'', ''ARIZONA''] []
     = Some ''AZ''
   \<and> choose_facet_id [cand ''98'' ''total electric power industry'', cand ''99'' ''all sectors'']
        [''ALL''] [''all'', ''total''] = Some ''98''
   \<and> resolve_spec [cand ''98'' ''total electric power industry'', cand ''99'' ''all sectors'']
        [''ALL''] [''all'', ''total''] = Some ''99''"
  by code_simp

subsection \<open>Normalization of keys\<close>

lemma filter_dropWhile_not: "filter P (dropWhile (\<lambda>x. \<not> P x) xs) = filter P xs"
  by (induction xs) auto

lemma re_sub_strip_filter: "re_sub_strip s = filter in_az09 s"
proof (induction s rule: re_sub_strip.induct)
  case 1
  then show ?case by simp
next
  case (2 c cs)
  then show ?case by (simp add: filter_dropWhile_not)
qed

lemma first_key_find:
  "first_key P (map (\<lambda>k. (k, g k)) keys) = find (\<lambda>k. P (g k)) keys"
  by (induction keys) auto


lemma find_Some_witness: "find P xs = Some x \<Longrightarrow> \<exists>y\<in>set xs. P y"
  by (induction xs) (auto split: if_splits)

lemma find_None_none: "find P xs = None \<Longrightarrow> \<not> (\<exists>y\<in>set xs. P y)"
  by (induction xs) (auto split: if_splits)

lemma exact_pass_find:
  "exact_pass (map g prefs) (map (\<lambda>k. (k, g k)) keys) =
     (case find (\<lambda>p. \<exists>k\<in>set keys. g k = g p) prefs of
        None \<Rightarrow> None
      | Some p \<Rightarrow> find (\<lambda>k. g k = g p) keys)"
proof (induction prefs)
  case Nil
  then show ?case by simp
next
  case (Cons p prefs)
  have fk: "first_key (\<lambda>nk. nk = g p) (map (\<lambda>k. (k, g k)) keys) = find (\<lambda>k. g k = g p) keys"
    by (rule first_key_find)
  show ?case
  proof (cases "find (\<lambda>k. g k = g p) keys")
    case None
    then have no: "\<not> (\<exists>k\<in>set keys. g k = g p)"
      by (rule find_None_none)
    have "exact_pass (map g (p # prefs)) (map (\<lambda>k. (k, g k)) keys) =
          exact_pass (map g prefs) (map (\<lambda>k. (k, g k)) keys)"
      using None fk by simp
    moreover have "find (\<lambda>p. \<exists>k\<in>set keys. g k = g p) (p # prefs) =
          find (\<lambda>p. \<exists>k\<in>set keys. g k = g p) prefs"
      using no by simp
    ultimately show ?thesis using Cons.IH by simp
  next
    case (Some k)
    then have yes: "\<exists>k\<in>set keys. g k = g p"
      by (rule find_Some_witness)
    have "exact_pass (map g (p # prefs)) (map (\<lambda>k. (k, g k)) keys) = Some k"
      using Some fk by simp
    moreover have "find (\<lambda>p. \<exists>k\<in>set keys. g k = g p) (p # prefs) = Some p"
      using yes by simp
    ultimately show ?thesis using Some by simp
  qed
qed


lemma needle_scan_no_needles: "needle_scan [] fv = None"
  by (induction fv) auto

lemma exact_scan_no_preferences: "exact_scan [] fv = None"
  by (induction fv) auto

text \<open>
  Claim C3, as amended.  The normalization that lower-cases and removes every character
  outside \<open>a-z\<close> and \<open>0-9\<close> is \<open>normalize_key\<close>, and only the picker of the metadata
  data field uses it, on both sides: a key whose normalized form equals the normalized
  form of a preference is an exact match.  The chooser of a facet value does not strip
  anything: it compares upper-cased identifiers for equality and looks for lower-cased
  needles in the lower-cased text \<open>id name alias\<close>.
\<close>

theorem normalization_in_column_picker_only:
  "normalize_key s = filter in_az09 (lower s)
   \<and> (find (\<lambda>p. \<exists>k\<in>set keys. normalize_key k = normalize_key p) preferred = Some p \<and>
      find (\<lambda>k. normalize_key k = normalize_key p) keys = Some k
        \<longrightarrow> pick_column keys = Inr k)
   \<and> choose_facet_id facet_values prefer_ids [] =
       (case find (\<lambda>f. \<exists>p\<in>set prefer_ids. upper (str_or_empty (facet_id f)) = upper p) facet_values of
          Some f \<Rightarrow> facet_id f
        | None \<Rightarrow> None)
   \<and> choose_facet_id facet_values [] needles =
       (case find (\<lambda>f. \<exists>n\<in>set needles. contains (blob f) (lower n)) facet_values of
          Some f \<Rightarrow> facet_id f
        | None \<Rightarrow> None)"
proof (intro conjI impI)
  show "normalize_key s = filter in_az09 (lower s)"
    by (simp add: normalize_key_def re_sub_strip_filter)
next
  assume "find (\<lambda>p. \<exists>k\<in>set keys. normalize_key k = normalize_key p) preferred = Some p \<and>
      find (\<lambda>k. normalize_key k = normalize_key p) keys = Some k"
  then have "exact_pass (map normalize_key preferred) (map (\<lambda>k. (k, normalize_key k)) keys) = Some k"
    by (simp only: exact_pass_find option.case)
  then show "pick_column keys = Inr k"
    by (simp only: pick_column_def Let_def option.case)
next
  have e: "exact_scan (map upper prefer_ids) facet_values =
      find (\<lambda>f. \<exists>p\<in>set prefer_ids. upper (str_or_empty (facet_id f)) = upper p) facet_values"
    by (rule exact_scan_find)
  have n: "needle_scan (map lower []) facet_values = None"
    by (simp only: list.map needle_scan_no_needles)
  show "choose_facet_id facet_values prefer_ids [] =
       (case find (\<lambda>f. \<exists>p\<in>set prefer_ids. upper (str_or_empty (facet_id f)) = upper p) facet_values of
          Some f \<Rightarrow> facet_id f
        | None \<Rightarrow> None)"
  proof (cases "facet_values = []")
    case True
    then show ?thesis by (simp add: choose_facet_id_def)
  next
    case False
    then show ?thesis
      unfolding choose_facet_id_def e n by (simp split: option.split)
  qed
next
  have n: "needle_scan (map lower needles) facet_values =
      find (\<lambda>f. \<exists>n\<in>set needles. contains (blob f) (lower n)) facet_values"
    by (rule needle_scan_find)
  have e: "exact_scan (map upper []) facet_values = None"
    by (simp only: list.map exact_scan_no_preferences)
  show "choose_facet_id facet_values [] needles =
       (case find (\<lambda>f. \<exists>n\<in>set needles. contains (blob f) (lower n)) facet_values of
          Some f \<Rightarrow> facet_id f
        | None \<Rightarrow> None)"
  proof (cases "facet_values = []")
    case True
    then show ?thesis by (simp add: choose_facet_id_def)
  next
    case False
    then show ?thesis
      unfolding choose_facet_id_def e n by (simp split: option.split)
  qed
qed


lemma net_generation_preferred: "find (\<lambda>p. \<exists>k\<in>set [''period'', ''Net_Generation'']. normalize_key k = normalize_key p) preferred
             = Some ''net-generation''"
  by code_simp

lemma net_generation_key: "find (\<lambda>k. normalize_key k = normalize_key ''net-generation'') [''period'', ''Net_Generation'']
             = Some ''Net_Generation''"
  by code_simp

text \<open>
  Claim C3, as stated, fails for the facet chooser: the identifier \<open>US-AZ\<close> and the
  preference \<open>usaz\<close> are equal after normalization, yet the chooser finds no match,
  neither as an exact preference nor as a needle; the column picker does match a key
  that differs from a preference in case and punctuation only.
\<close>

theorem choose_facet_id_no_stripping_counterexample:
  "normalize_key ''US-AZ'' = normalize_key ''usaz''
   \<and> choose_facet_id [cand ''US-AZ'' ''Arizona''] [''usaz''] [''usaz''] = None
   \<and> pick_column [''Net_Generation''] = Inr ''Net_Generation''"
  by code_simp


theorem normalization_in_column_picker_only_witness:
  "pick_column [''period'', ''Net_Generation''] = Inr ''Net_Generation''"
proof -
  have "find (\<lambda>p. \<exists>k\<in>set [''period'', ''Net_Generation'']. normalize_key k = normalize_key p) preferred
          = Some ''net-generation'' \<and>
        find (\<lambda>k. normalize_key k = normalize_key ''net-generation'') [''period'', ''Net_Generation'']
          = Some ''Net_Generation''
        \<longrightarrow> pick_column [''period'', ''Net_Generation''] = Inr ''Net_Generation''"
    by (rule normalization_in_column_picker_only
          [where keys = "[''period'', ''Net_Generation'']" and p = "''net-generation''"
             and k = "''Net_Generation''", THEN conjunct2, THEN conjunct1])
  moreover have "find (\<lambda>p. \<exists>k\<in>set [''period'', ''Net_Generation'']. normalize_key k = normalize_key p) preferred
          = Some ''net-generation'' \<and>
        find (\<lambda>k. normalize_key k = normalize_key ''net-generation'') [''period'', ''Net_Generation'']
          = Some ''Net_Generation''"
    using net_generation_preferred net_generation_key by (rule conjI)
  ultimately show ?thesis by (rule mp)
qed

section \<open>Merging two series by period\<close>

text \<open>The map operations, and what each loop keeps true of the map.\<close>

lemma map_of_dict_set: "map_of (dict_set m k v) = (map_of m)(k \<mapsto> v)"
  by (induction m k v rule: dict_set.induct) auto

lemma keys_dict_set: "fst ` set (dict_set m k v) = insert k (fst ` set m)"
  by (induction m k v rule: dict_set.induct) (auto simp: image_iff)

lemma distinct_dict_set: "distinct (map fst m) \<Longrightarrow> distinct (map fst (dict_set m k v))"
  by (induction m k v rule: dict_set.induct) (auto simp: keys_dict_set)

lemma retail_loop_keys:
  "fst ` set (retail_loop rs m) = fst ` set m \<union> s_period ` set rs"
  by (induction rs arbitrary: m) (auto simp: keys_dict_set)

lemma retail_loop_distinct:
  "distinct (map fst m) \<Longrightarrow> distinct (map fst (retail_loop rs m))"
  by (induction rs arbitrary: m) (auto simp: distinct_dict_set)

lemma retail_loop_period:
  "(\<And>q row. map_of m q = Some row \<Longrightarrow> period row = q) \<Longrightarrow>
   map_of (retail_loop rs m) p = Some row \<Longrightarrow> period row = p"
proof (induction rs arbitrary: m)
  case Nil
  then show ?case by simp
next
  case (Cons r rs)
  show ?case
  proof (rule Cons.IH [OF _ Cons.prems(2) [simplified]])
    fix q row'
    assume "map_of (dict_set m (s_period r)
          \<lparr>period = s_period r, sales = nullish (s_sales r), revenue = nullish (s_revenue r),
           price = nullish (s_price r), generation = JNull\<rparr>) q = Some row'"
    then show "period row' = q"
      using Cons.prems(1) by (auto simp: map_of_dict_set split: if_splits)
  qed
qed

lemma retail_loop_generation:
  "(\<And>q row. map_of m q = Some row \<Longrightarrow> generation row = JNull) \<Longrightarrow>
   map_of (retail_loop rs m) p = Some row \<Longrightarrow> generation row = JNull"
proof (induction rs arbitrary: m)
  case Nil
  then show ?case by simp
next
  case (Cons r rs)
  show ?case
  proof (rule Cons.IH [OF _ Cons.prems(2) [simplified]])
    fix q row'
    assume "map_of (dict_set m (s_period r)
          \<lparr>period = s_period r, sales = nullish (s_sales r), revenue = nullish (s_revenue r),
           price = nullish (s_price r), generation = JNull\<rparr>) q = Some row'"
    then show "generation row' = JNull"
      using Cons.prems(1) by (auto simp: map_of_dict_set split: if_splits)
  qed
qed

lemma gen_loop_keys:
  "fst ` set (gen_loop gs m) = fst ` set m \<union> g_period ` set gs"
  by (induction gs arbitrary: m) (auto simp: keys_dict_set Let_def)

lemma gen_loop_distinct:
  "distinct (map fst m) \<Longrightarrow> distinct (map fst (gen_loop gs m))"
  by (induction gs arbitrary: m) (auto simp: distinct_dict_set Let_def)

lemma gen_loop_other:
  "p \<notin> g_period ` set gs \<Longrightarrow> map_of (gen_loop gs m) p = map_of m p"
  by (induction gs arbitrary: m) (auto simp: map_of_dict_set Let_def)

lemma gen_loop_period:
  "(\<And>q row. map_of m q = Some row \<Longrightarrow> period row = q) \<Longrightarrow>
   map_of (gen_loop gs m) p = Some row \<Longrightarrow> period row = p"
proof (induction gs arbitrary: m)
  case Nil
  then show ?case by simp
next
  case (Cons g gs)
  let ?cur = "case map_of m (g_period g) of
                Some row \<Rightarrow> row
              | None \<Rightarrow> \<lparr>period = g_period g, sales = JNull, revenue = JNull, price = JNull,
                         generation = JNull\<rparr>"
  let ?m = "dict_set m (g_period g) (?cur\<lparr>generation := nullish (g_generation g)\<rparr>)"
  have step: "map_of (gen_loop gs ?m) p = Some row"
    using Cons.prems(2) by (simp add: Let_def)
  show ?case
  proof (rule Cons.IH [OF _ step])
    fix q row'
    assume "map_of ?m q = Some row'"
    then show "period row' = q"
      using Cons.prems(1) by (auto simp: map_of_dict_set split: if_splits option.splits)
  qed
qed

lemma gen_loop_nulls:
  "(\<And>row. map_of m p = Some row \<Longrightarrow> sales row = JNull \<and> revenue row = JNull \<and> price row = JNull) \<Longrightarrow>
   map_of (gen_loop gs m) p = Some row \<Longrightarrow>
   sales row = JNull \<and> revenue row = JNull \<and> price row = JNull"
proof (induction gs arbitrary: m)
  case Nil
  then show ?case by simp
next
  case (Cons g gs)
  let ?cur = "case map_of m (g_period g) of
                Some row \<Rightarrow> row
              | None \<Rightarrow> \<lparr>period = g_period g, sales = JNull, revenue = JNull, price = JNull,
                         generation = JNull\<rparr>"
  let ?m = "dict_set m (g_period g) (?cur\<lparr>generation := nullish (g_generation g)\<rparr>)"
  have step: "map_of (gen_loop gs ?m) p = Some row"
    using Cons.prems(2) by (simp add: Let_def)
  show ?case
  proof (rule Cons.IH [OF _ step])
    fix row'
    assume "map_of ?m p = Some row'"
    then show "sales row' = JNull \<and> revenue row' = JNull \<and> price row' = JNull"
      using Cons.prems(1) by (auto simp: map_of_dict_set split: if_splits option.splits)
  qed
qed


text \<open>
  Claim C7.  When the two series have disjoint sets of periods, the merge yields one
  defined row for each period of the union and no other row, in strictly ascending order
  of the period; a row whose period comes from the retail series has a null generation,
  and a row whose period comes from the generation series has null sales, revenue and
  price.
\<close>

theorem merge_by_period_disjoint:
  assumes disj: "s_period ` set retail_rows \<inter> g_period ` set gen_rows = {}"
  shows "\<exists>merged. merge_by_period retail_rows gen_rows = map Some merged \<and>
           sorted_wrt (<) (map period merged) \<and>
           set (map period merged) = s_period ` set retail_rows \<union> g_period ` set gen_rows \<and>
           (\<forall>row\<in>set merged.
              (period row \<in> s_period ` set retail_rows \<longrightarrow> generation row = JNull) \<and>
              (period row \<in> g_period ` set gen_rows \<longrightarrow>
                 sales row = JNull \<and> revenue row = JNull \<and> price row = JNull))"
proof -
  define m0 where "m0 = retail_loop retail_rows []"
  define m where "m = gen_loop gen_rows m0"
  define periods where "periods = sort (map fst m)"
  define merged where "merged = map (\<lambda>p. the (map_of m p)) periods"
  have keys0: "fst ` set m0 = s_period ` set retail_rows"
    by (simp add: m0_def retail_loop_keys)
  have keys: "fst ` set m = s_period ` set retail_rows \<union> g_period ` set gen_rows"
    by (simp add: m_def gen_loop_keys keys0)
  have dist: "distinct (map fst m)"
    by (simp add: m_def m0_def gen_loop_distinct retail_loop_distinct)
  have set_periods: "set periods = s_period ` set retail_rows \<union> g_period ` set gen_rows"
    by (simp add: periods_def keys)
  have defined: "\<And>p. p \<in> set periods \<Longrightarrow> \<exists>row. map_of m p = Some row"
  proof -
    fix p assume "p \<in> set periods"
    then have "p \<in> fst ` set m" by (simp add: periods_def)
    then have "p \<in> dom (map_of m)" by (simp add: dom_map_of_conv_image_fst)
    then show "\<exists>row. map_of m p = Some row" by blast
  qed
  have period0: "\<And>q row. map_of m0 q = Some row \<Longrightarrow> period row = q"
    unfolding m0_def by (rule retail_loop_period [where m = "[]"]) simp_all
  have period_m: "\<And>q row. map_of m q = Some row \<Longrightarrow> period row = q"
    unfolding m_def by (rule gen_loop_period [where m = m0]) (auto dest: period0)
  have gen0: "\<And>q row. map_of m0 q = Some row \<Longrightarrow> generation row = JNull"
    unfolding m0_def by (rule retail_loop_generation [where m = "[]"]) simp_all
  have run: "merge_by_period retail_rows gen_rows = map (\<lambda>p. map_of m p) periods"
    by (simp add: merge_by_period_def m_def m0_def periods_def Let_def)
  have a: "merge_by_period retail_rows gen_rows = map Some merged"
    unfolding run merged_def using defined by (auto simp: comp_def)
  have periods_eq: "map period merged = periods"
  proof -
    have "\<And>p. p \<in> set periods \<Longrightarrow> period (the (map_of m p)) = p"
      using defined period_m by fastforce
    then show ?thesis
      by (simp add: merged_def comp_def map_idI)
  qed
  have b: "sorted_wrt (<) (map period merged)"
    unfolding periods_eq periods_def using dist by (simp add: strict_sorted_iff)
  have c: "set (map period merged) = s_period ` set retail_rows \<union> g_period ` set gen_rows"
    unfolding periods_eq by (rule set_periods)
  have d: "\<forall>row\<in>set merged.
              (period row \<in> s_period ` set retail_rows \<longrightarrow> generation row = JNull) \<and>
              (period row \<in> g_period ` set gen_rows \<longrightarrow>
                 sales row = JNull \<and> revenue row = JNull \<and> price row = JNull)"
  proof
    fix row assume "row \<in> set merged"
    then obtain p where p: "p \<in> set periods" and row: "row = the (map_of m p)"
      by (auto simp: merged_def)
    from defined [OF p] row have look: "map_of m p = Some row" by auto
    then have pr: "period row = p" by (rule period_m)
    show "(period row \<in> s_period ` set retail_rows \<longrightarrow> generation row = JNull) \<and>
          (period row \<in> g_period ` set gen_rows \<longrightarrow>
             sales row = JNull \<and> revenue row = JNull \<and> price row = JNull)"
    proof (rule conjI; rule impI)
      assume "period row \<in> s_period ` set retail_rows"
      then have "p \<notin> g_period ` set gen_rows" using disj pr by blast
      then have "map_of m p = map_of m0 p"
        unfolding m_def by (rule gen_loop_other)
      then have "map_of m0 p = Some row" using look by simp
      then show "generation row = JNull" by (rule gen0)
    next
      assume "period row \<in> g_period ` set gen_rows"
      then have "p \<notin> s_period ` set retail_rows" using disj pr by blast
      then have "p \<notin> dom (map_of m0)"
        by (simp add: dom_map_of_conv_image_fst keys0)
      then have none: "map_of m0 p = None" by blast
      have look': "map_of (gen_loop gen_rows m0) p = Some row"
        using look by (simp add: m_def)
      show "sales row = JNull \<and> revenue row = JNull \<and> price row = JNull"
        by (rule gen_loop_nulls [OF _ look']) (simp add: none)
    qed
  qed
  from a b c d show ?thesis by blast
qed

theorem merge_by_period_disjoint_witness:
  "merge_by_period retail_2021 gen_2021 =
     map Some
       [\<lparr>period = ''2021-01'', sales = JInt 100, revenue = JNull, price = JNull, generation = JNull\<rparr>,
        \<lparr>period = ''2021-02'', sales = JNull, revenue = JNull, price = JNull, generation = JInt 50\<rparr>]"
proof -
  have disj: "s_period ` set retail_2021 \<inter> g_period ` set gen_2021 = {}"
    by (simp add: retail_2021_def gen_2021_def)
  obtain merged where m: "merge_by_period retail_2021 gen_2021 = map Some merged"
    using merge_by_period_disjoint [OF disj] by blast
  have "merge_by_period retail_2021 gen_2021 =
     [Some \<lparr>period = ''2021-01'', sales = JInt 100, revenue = JNull, price = JNull, generation = JNull\<rparr>,
      Some \<lparr>period = ''2021-02'', sales = JNull, revenue = JNull, price = JNull, generation = JInt 50\<rparr>]"
    by code_simp
  then show ?thesis using m by simp
qed

section \<open>From features to a data frame\<close>







lemma set_first_seen [simp]: "set (first_seen xs) = set xs"
  by (simp add: first_seen_def)

















end
